theory Spec2Isabelle
  imports Main "HOL-Library.Word" "HOL-Library.Multiset"
begin

section \<open>Result of a bulk write\<close>

text \<open>
  \<^verbatim>\<open>BulkWriteResult\<close> of \<^verbatim>\<open>MongoBulkWriter.h\<close>: five \<^verbatim>\<open>int32_t\<close> counters.
  The counters are 32-bit words, read as two's complement by \<open>sint\<close>; \<open>+\<close> on them is the
  addition of the machine (the C++ standard leaves the overflow of a signed addition
  undefined; the model fixes it as the wrap-around of the two's complement hardware the
  program runs on).
\<close>

type_synonym int32_t = "32 word"
type_synonym uint32_t = "32 word"

record BulkWriteResult =
  NumInserted :: int32_t
  NumMatched :: int32_t
  NumModified :: int32_t
  NumDeleted :: int32_t
  NumUpserted :: int32_t

text \<open>The counts that \<^verbatim>\<open>mongocxx::result::bulk_write\<close> reports (each an \<^verbatim>\<open>int32_t\<close>).\<close>

record mongo_bulk_write_result =
  inserted_count :: int32_t
  matched_count :: int32_t
  modified_count :: int32_t
  deleted_count :: int32_t
  upserted_count :: int32_t

text \<open>The default constructor \<^verbatim>\<open>BulkWriteResult()\<close>.\<close>

definition BulkWriteResult_default :: BulkWriteResult where
  "BulkWriteResult_default =
     \<lparr>NumInserted = 0, NumMatched = 0, NumModified = 0, NumDeleted = 0, NumUpserted = 0\<rparr>"

text \<open>The constructor \<^verbatim>\<open>BulkWriteResult(const mongocxx::result::bulk_write&)\<close>.\<close>

definition BulkWriteResult_of :: "mongo_bulk_write_result \<Rightarrow> BulkWriteResult" where
  "BulkWriteResult_of result =
     \<lparr>NumInserted = inserted_count result,
      NumMatched = matched_count result,
      NumModified = modified_count result,
      NumDeleted = deleted_count result,
      NumUpserted = upserted_count result\<rparr>"

text \<open>
  \<^verbatim>\<open>BulkWriteResult::Aggregate\<close>: the range-for loop over \<^verbatim>\<open>results\<close>, the local
  \<^verbatim>\<open>aggregate\<close> passed along as the accumulator.
\<close>

fun Aggregate_loop :: "BulkWriteResult \<Rightarrow> BulkWriteResult list \<Rightarrow> BulkWriteResult" where
  "Aggregate_loop aggregate [] = aggregate"
| "Aggregate_loop aggregate (result # results) =
     Aggregate_loop
       (aggregate\<lparr>NumInserted := NumInserted aggregate + NumInserted result,
                  NumMatched := NumMatched aggregate + NumMatched result,
                  NumModified := NumModified aggregate + NumModified result,
                  NumDeleted := NumDeleted aggregate + NumDeleted result,
                  NumUpserted := NumUpserted aggregate + NumUpserted result\<rparr>)
       results"

definition Aggregate :: "BulkWriteResult list \<Rightarrow> BulkWriteResult" where
  "Aggregate results = Aggregate_loop BulkWriteResult_default results"

section \<open>Bulk commands\<close>

text \<open>
  A \<^verbatim>\<open>mongocxx::bulk_write\<close> is the ordered batch of the write models appended to it.
  Documents and filters (\<^verbatim>\<open>bsoncxx::document::value\<close>) are opaque: the type \<open>'d\<close>.
  Of the write models of the driver, the insert, the replace and both deletes are kept:
  the writer builds no update. A \<^verbatim>\<open>replace_one\<close> is constructed with its upsert option
  unset; \<^verbatim>\<open>upsert(bool)\<close> sets it.
\<close>

datatype 'd write_model =
    insert_one 'd
  | delete_one 'd
  | delete_many 'd
  | replace_one 'd 'd "bool option"

type_synonym 'd bulk_write = "'d write_model list"

definition bulk_append :: "'d bulk_write \<Rightarrow> 'd write_model \<Rightarrow> 'd bulk_write" where
  "bulk_append bulk operation = bulk @ [operation]"

definition new_replace_one :: "'d \<Rightarrow> 'd \<Rightarrow> 'd write_model" where
  "new_replace_one filter_doc replacement = replace_one filter_doc replacement None"

fun upsert :: "bool \<Rightarrow> 'd write_model \<Rightarrow> 'd write_model" where
  "upsert b (replace_one filter_doc replacement _) = replace_one filter_doc replacement (Some b)"
| "upsert b operation = operation"

type_synonym ('e, 'd) AppendOperation = "'d bulk_write \<Rightarrow> 'e \<Rightarrow> uint32_t \<Rightarrow> 'd bulk_write"
type_synonym ('e, 'd) CreateDocument = "'e \<Rightarrow> uint32_t \<Rightarrow> 'd"
type_synonym ('e, 'd) CreateDocuments = "'e \<Rightarrow> uint32_t \<Rightarrow> 'd list"
type_synonym ('e, 'd) CreateFilter = "'e \<Rightarrow> 'd"

text \<open>The \<^verbatim>\<open>appendOperation\<close> lambda of each public operation; the bulk is returned updated.\<close>

definition bulkInsert_appendOperation ::
  "('e, 'd) CreateDocument \<Rightarrow> ('e, 'd) AppendOperation" where
  "bulkInsert_appendOperation createDocument bulk entity index =
     (let entityDocument = createDocument entity index
      in bulk_append bulk (insert_one entityDocument))"

definition bulkInsertMany_appendOperation ::
  "('e, 'd) CreateDocuments \<Rightarrow> ('e, 'd) AppendOperation" where
  "bulkInsertMany_appendOperation createDocuments bulk entity index =
     foldl (\<lambda>b entityDocument. bulk_append b (insert_one entityDocument))
       bulk (createDocuments entity index)"

definition bulkUpsert_appendOperation ::
  "('e, 'd) CreateDocument \<Rightarrow> ('e, 'd) CreateFilter \<Rightarrow> ('e, 'd) AppendOperation" where
  "bulkUpsert_appendOperation createDocument createFilter bulk entity index =
     (let entityDocument = createDocument entity index;
          filter_doc = createFilter entity;
          replace_op = new_replace_one filter_doc entityDocument;
          replace_op = upsert True replace_op
      in bulk_append bulk replace_op)"

definition bulkDelete_appendOperation ::
  "('e, 'd) CreateFilter \<Rightarrow> ('e, 'd) AppendOperation" where
  "bulkDelete_appendOperation createFilter bulk entity index =
     (let filter_doc = createFilter entity
      in bulk_append bulk (delete_many filter_doc))"

text \<open>
  The body of the partition lambda of \<^verbatim>\<open>bulkWrite<TEntity, TContainer>\<close>: a fresh bulk, the
  index narrowed to \<^verbatim>\<open>uint32_t\<close> by the \<^verbatim>\<open>static_cast\<close>, and the loop from \<^verbatim>\<open>itBegin\<close> to
  \<^verbatim>\<open>itEnd\<close> that advances the iterator and the index together.
\<close>

fun partition_loop ::
  "('e, 'd) AppendOperation \<Rightarrow> 'd bulk_write \<Rightarrow> 'e list \<Rightarrow> uint32_t \<Rightarrow> 'd bulk_write" where
  "partition_loop appendOperation pBulk [] index = pBulk"
| "partition_loop appendOperation pBulk (entity # rest) index =
     partition_loop appendOperation (appendOperation pBulk entity index) rest (index + 1)"

definition buildBulk :: "('e, 'd) AppendOperation \<Rightarrow> 'e list \<Rightarrow> nat \<Rightarrow> 'd bulk_write" where
  "buildBulk appendOperation entitySlice startIndex =
     partition_loop appendOperation [] entitySlice (of_nat startIndex)"

section \<open>The write executor\<close>

text \<open>
  What the driver may throw: a \<^verbatim>\<open>mongocxx::bulk_write_exception\<close>, with the message of its
  error code and the raw server error when the server sent one (held as the JSON text
  that \<^verbatim>\<open>bsoncxx::to_json\<close> renders), or an exception of any other type, which the
  \<^verbatim>\<open>catch\<close> clause of the executor does not match.
\<close>

datatype mongo_exception =
    bulk_write_exception string "string option"
  | other_exception string

text \<open>
  One invocation's view of the driver: \<^verbatim>\<open>m_connectionPool.acquire()\<close> yields a connection
  (\<open>None\<close>) or throws; \<^verbatim>\<open>collection.bulk_write(bulk)\<close> on database, collection and bulk
  throws or has a result (the source's comment: if something goes wrong mongo will throw,
  else a result is always available).
\<close>

record 'd mongo_driver =
  acquire :: "mongo_exception option"
  bulk_write ::
    "string \<Rightarrow> string \<Rightarrow> 'd bulk_write \<Rightarrow> mongo_exception + mongo_bulk_write_result"

text \<open>
  Modelled from the spec: the log levels of \<^verbatim>\<open>catapult/utils/Logging.h\<close>, which is not among
  the sources. The executor logs with \<^verbatim>\<open>CATAPULT_LOG(fatal)\<close>, which the spec calls the
  highest severity; the levels are listed from the lowest to the highest.
\<close>

datatype log_level = trace | debug | info | warning | error | fatal

fun severity :: "log_level \<Rightarrow> nat" where
  "severity trace = 0"
| "severity debug = 1"
| "severity info = 2"
| "severity warning = 3"
| "severity error = 4"
| "severity fatal = 5"

text \<open>
  The effects of an invocation, in the order they happen, and the state of a
  \<^verbatim>\<open>thread::future\<close>: default-constructed, waiting for its promise, or resolved with a
  value or with an exception (here the message of the \<^verbatim>\<open>catapult_runtime_error\<close>).
\<close>

datatype event =
    PoolAcquire
  | Log log_level string
  | SetValue BulkWriteResult
  | SetException string

datatype 'a future_state =
    Invalid
  | Unresolved
  | HasValue 'a
  | HasException string

record executor_outcome =
  events :: "event list"
  promise :: "BulkWriteResult future_state"
  uncaught :: "mongo_exception option"

text \<open>
  The single \<^verbatim>\<open>catch (const mongocxx::bulk_write_exception&)\<close> clause, after the events
  \<open>evs\<close> of the \<^verbatim>\<open>try\<close> block: an exception of another type is not caught, leaves the
  function and the promise is not set. The text of the stream reaches the log and the
  \<^verbatim>\<open>catapult_runtime_error\<close> through \<^verbatim>\<open>c_str()\<close>, as a C string: it ends before the
  first zero character.
\<close>

definition c_str :: "string \<Rightarrow> string" where
  "c_str s = takeWhile (\<lambda>c. c \<noteq> CHR 0x00) s"

fun catch_clause :: "event list \<Rightarrow> mongo_exception \<Rightarrow> executor_outcome" where
  "catch_clause evs (bulk_write_exception message raw_server_error) =
     (let stream = ''message: '' @ message;
          stream = (case raw_server_error of
                      Some description \<Rightarrow> stream @ '', description: '' @ description
                    | None \<Rightarrow> stream)
      in \<lparr>events = evs @ [Log fatal (''throwing exception: '' @ c_str stream),
                         SetException (c_str stream)],
          promise = HasException (c_str stream),
          uncaught = None\<rparr>)"
| "catch_clause evs (other_exception what) =
     \<lparr>events = evs, promise = Unresolved, uncaught = Some (other_exception what)\<rparr>"

text \<open>\<^verbatim>\<open>MongoBulkWriter::bulkWrite(collectionName, bulk, promise)\<close>.\<close>

definition bulkWrite ::
  "'d mongo_driver \<Rightarrow> string \<Rightarrow> string \<Rightarrow> 'd bulk_write \<Rightarrow> executor_outcome" where
  "bulkWrite driver m_dbName collectionName bulk =
     (case acquire driver of
        Some e \<Rightarrow> catch_clause [PoolAcquire] e
      | None \<Rightarrow>
          (case bulk_write driver m_dbName collectionName bulk of
             Inl e \<Rightarrow> catch_clause [PoolAcquire] e
           | Inr result \<Rightarrow>
               \<lparr>events = [PoolAcquire, SetValue (BulkWriteResult_of result)],
                promise = HasValue (BulkWriteResult_of result),
                uncaught = None\<rparr>))"

text \<open>
  \<^verbatim>\<open>handleBulkOperation\<close> posts the executor to the service and returns the future of its
  promise; the posted task is run here, so that the future is returned in the state the
  task leaves it in.
\<close>

definition handleBulkOperation ::
  "'d mongo_driver \<Rightarrow> string \<Rightarrow> string \<Rightarrow> 'd bulk_write \<Rightarrow> executor_outcome" where
  "handleBulkOperation driver m_dbName collectionName pBulk =
     bulkWrite driver m_dbName collectionName pBulk"

text \<open>The exception, if any, that the driver throws inside the \<^verbatim>\<open>try\<close> block.\<close>

definition thrown ::
  "'d mongo_driver \<Rightarrow> string \<Rightarrow> string \<Rightarrow> 'd bulk_write \<Rightarrow> mongo_exception option" where
  "thrown driver m_dbName collectionName bulk =
     (case acquire driver of
        Some e \<Rightarrow> Some e
      | None \<Rightarrow>
          (case bulk_write driver m_dbName collectionName bulk of
             Inl e \<Rightarrow> Some e
           | Inr result \<Rightarrow> None))"

fun resolved :: "'a future_state \<Rightarrow> bool" where
  "resolved (HasValue v) = True"
| "resolved (HasException s) = True"
| "resolved f = False"

section \<open>Partitioning and dispatch\<close>

text \<open>
  Modelled from the spec: \<^verbatim>\<open>thread::ParallelForPartition\<close> (\<^verbatim>\<open>catapult/thread/ParallelFor.h\<close>)
  is not among the sources. By the spec, for length \<open>L\<close> and \<open>W\<close> workers there are
  \<open>P = min W L\<close> contiguous partitions, of base size \<open>L div P\<close>, the first \<open>L mod P\<close> of them
  with one more element; the start index of a partition is the cumulative size of those
  before it, and its batch index is its position. The partitions are produced by a loop
  that carries the batch index and the running start index.
\<close>

record partition =
  startIndex :: nat
  batchIndex :: nat
  partitionSize :: nat

fun computePartitions_from :: "nat \<Rightarrow> nat \<Rightarrow> nat \<Rightarrow> nat \<Rightarrow> nat \<Rightarrow> partition list" where
  "computePartitions_from base extra 0 k start = []"
| "computePartitions_from base extra (Suc remaining) k start =
     (let count = base + (if k < extra then 1 else 0)
      in \<lparr>startIndex = start, batchIndex = k, partitionSize = count\<rparr>
         # computePartitions_from base extra remaining (Suc k) (start + count))"

definition computePartitions :: "nat \<Rightarrow> nat \<Rightarrow> partition list" where
  "computePartitions L W =
     (let P = min W L
      in if P = 0 then [] else computePartitions_from (L div P) (L mod P) P 0 0)"

text \<open>The index range and the entity slice (\<^verbatim>\<open>itBegin\<close> to \<^verbatim>\<open>itEnd\<close>) of a partition.\<close>

definition partitionRange :: "partition \<Rightarrow> nat list" where
  "partitionRange p = [startIndex p ..< startIndex p + partitionSize p]"

definition partitionSlice :: "'e list \<Rightarrow> partition \<Rightarrow> 'e list" where
  "partitionSlice entities p = take (partitionSize p) (drop (startIndex p) entities)"

text \<open>
  Modelled from the spec: \<^verbatim>\<open>thread::when_all\<close> and \<^verbatim>\<open>thread::make_ready_future\<close>
  (\<^verbatim>\<open>catapult/thread/FutureUtils.h\<close>) are not among the sources. The composed handle is
  ready, holding the per-partition futures, when every one of them has resolved, with a
  value or with an exception; a ready future holds its value.
\<close>

definition when_all :: "'a future_state list \<Rightarrow> 'a future_state list future_state" where
  "when_all futures = (if list_all resolved futures then HasValue futures else Unresolved)"

definition make_ready_future :: "'a \<Rightarrow> 'a future_state" where
  "make_ready_future v = HasValue v"

text \<open>
  The writer: its database name, the number of worker threads of its pool, and what the
  driver does in the executor of each batch. A call returns the composed future, together
  with the effects of the call in order and the bulk that each partition built.
\<close>

record 'd MongoBulkWriter =
  m_dbName :: string
  numWorkerThreads :: nat
  m_connectionPool :: "nat \<Rightarrow> 'd mongo_driver"

record 'd BulkWriteCall =
  m_futures :: "BulkWriteResult future_state list"
  effects :: "event list"
  bulks :: "'d bulk_write list"

record 'd BulkWriteReturn =
  returned :: "BulkWriteResult future_state list future_state"
  call_effects :: "event list"
  call_bulks :: "'d bulk_write list"

text \<open>\<^verbatim>\<open>BulkWriteContext\<close>: the constructor, \<^verbatim>\<open>setFutureAt\<close> and \<^verbatim>\<open>aggregateFuture\<close>.\<close>

definition BulkWriteContext :: "nat \<Rightarrow> BulkWriteResult future_state list" where
  "BulkWriteContext numOperations = replicate numOperations Invalid"

definition setFutureAt ::
  "nat \<Rightarrow> BulkWriteResult future_state \<Rightarrow> BulkWriteResult future_state list
    \<Rightarrow> BulkWriteResult future_state list" where
  "setFutureAt index future futures = futures[index := future]"

definition aggregateFuture ::
  "BulkWriteResult future_state list \<Rightarrow> BulkWriteResult future_state list future_state" where
  "aggregateFuture futures = when_all futures"

text \<open>
  The partition lambda of \<^verbatim>\<open>bulkWrite<TEntity, TContainer>\<close>, called with the begin and end
  of the slice, the start index and the batch index: it builds the bulk
  (\<open>partitionBulk\<close>), hands it to \<^verbatim>\<open>handleBulkOperation\<close> (\<open>partitionOutcome\<close>, run
  against the driver as the executor of this batch sees it) and stores the future in the
  slot of the batch.
\<close>

definition partitionBulk :: "('e, 'd) AppendOperation \<Rightarrow> 'e list \<Rightarrow> partition \<Rightarrow> 'd bulk_write" where
  "partitionBulk appendOperation entities p =
     buildBulk appendOperation (partitionSlice entities p) (startIndex p)"

definition partitionOutcome ::
  "'d MongoBulkWriter \<Rightarrow> string \<Rightarrow> ('e, 'd) AppendOperation \<Rightarrow> 'e list \<Rightarrow> partition
    \<Rightarrow> executor_outcome" where
  "partitionOutcome writer collectionName appendOperation entities p =
     handleBulkOperation (m_connectionPool writer (batchIndex p)) (m_dbName writer)
       collectionName (partitionBulk appendOperation entities p)"

definition partitionCallback ::
  "'d MongoBulkWriter \<Rightarrow> string \<Rightarrow> ('e, 'd) AppendOperation \<Rightarrow> 'e list \<Rightarrow> partition
    \<Rightarrow> 'd BulkWriteCall \<Rightarrow> 'd BulkWriteCall" where
  "partitionCallback writer collectionName appendOperation entities p pContext =
     (let pBulk = partitionBulk appendOperation entities p;
          outcome = partitionOutcome writer collectionName appendOperation entities p
      in \<lparr>m_futures = setFutureAt (batchIndex p) (promise outcome) (m_futures pContext),
          effects = effects pContext @ events outcome,
          bulks = bulks pContext @ [pBulk]\<rparr>)"

text \<open>
  \<^verbatim>\<open>MongoBulkWriter::bulkWrite<TEntity, TContainer>\<close>: the early return on no entities, else
  the context sized \<^verbatim>\<open>min(entities.size(), numThreads)\<close>, the callback on every partition
  and the aggregate future of the context.
\<close>

definition bulkWrite_entities ::
  "'d MongoBulkWriter \<Rightarrow> string \<Rightarrow> 'e list \<Rightarrow> ('e, 'd) AppendOperation \<Rightarrow> 'd BulkWriteReturn" where
  "bulkWrite_entities writer collectionName entities appendOperation =
     (if entities = []
      then \<lparr>returned = make_ready_future [], call_effects = [], call_bulks = []\<rparr>
      else
        (let numThreads = numWorkerThreads writer;
             pContext = \<lparr>m_futures = BulkWriteContext (min (length entities) numThreads),
                         effects = [], bulks = []\<rparr>;
             pContext = fold (partitionCallback writer collectionName appendOperation entities)
                          (computePartitions (length entities) numThreads) pContext
         in \<lparr>returned = aggregateFuture (m_futures pContext),
             call_effects = effects pContext,
             call_bulks = bulks pContext\<rparr>))"

text \<open>The four public operations.\<close>

definition bulkInsert ::
  "'d MongoBulkWriter \<Rightarrow> string \<Rightarrow> 'e list \<Rightarrow> ('e, 'd) CreateDocument \<Rightarrow> 'd BulkWriteReturn" where
  "bulkInsert writer collectionName entities createDocument =
     bulkWrite_entities writer collectionName entities (bulkInsert_appendOperation createDocument)"

definition bulkInsertMany ::
  "'d MongoBulkWriter \<Rightarrow> string \<Rightarrow> 'e list \<Rightarrow> ('e, 'd) CreateDocuments \<Rightarrow> 'd BulkWriteReturn" where
  "bulkInsertMany writer collectionName entities createDocuments =
     bulkWrite_entities writer collectionName entities
       (bulkInsertMany_appendOperation createDocuments)"

definition bulkUpsert ::
  "'d MongoBulkWriter \<Rightarrow> string \<Rightarrow> 'e list \<Rightarrow> ('e, 'd) CreateDocument \<Rightarrow> ('e, 'd) CreateFilter
    \<Rightarrow> 'd BulkWriteReturn" where
  "bulkUpsert writer collectionName entities createDocument createFilter =
     bulkWrite_entities writer collectionName entities
       (bulkUpsert_appendOperation createDocument createFilter)"

definition bulkDelete ::
  "'d MongoBulkWriter \<Rightarrow> string \<Rightarrow> 'e list \<Rightarrow> ('e, 'd) CreateFilter \<Rightarrow> 'd BulkWriteReturn" where
  "bulkDelete writer collectionName entities createFilter =
     bulkWrite_entities writer collectionName entities (bulkDelete_appendOperation createFilter)"

section \<open>Concrete inputs\<close>

definition count_a :: BulkWriteResult where
  "count_a = \<lparr>NumInserted = 2147483647, NumMatched = 3, NumModified = 2, NumDeleted = 0, NumUpserted = 1\<rparr>"

definition count_b :: BulkWriteResult where
  "count_b = \<lparr>NumInserted = 1, NumMatched = 0, NumModified = 0, NumDeleted = 5, NumUpserted = 0\<rparr>"

definition unavailable_pool :: "string mongo_driver" where
  "unavailable_pool =
     \<lparr>acquire = Some (other_exception ''failed to acquire client''),
      bulk_write = (\<lambda>db coll bulk. Inr \<lparr>inserted_count = 0, matched_count = 0,
                     modified_count = 0, deleted_count = 0, upserted_count = 0\<rparr>)\<rparr>"

definition rejecting_server :: "string mongo_driver" where
  "rejecting_server =
     \<lparr>acquire = None,
      bulk_write = (\<lambda>db coll bulk.
        Inl (bulk_write_exception ''E11000 duplicate key'' (Some ''{ \"nInserted\" : 0 }'')))\<rparr>"

definition accepting_server :: "(string \<times> uint32_t) mongo_driver" where
  "accepting_server =
     \<lparr>acquire = None,
      bulk_write = (\<lambda>db coll bulk.
        Inr \<lparr>inserted_count = of_nat (length bulk), matched_count = 0,
             modified_count = 0, deleted_count = 0, upserted_count = 0\<rparr>)\<rparr>"

definition two_worker_writer :: "(string \<times> uint32_t) MongoBulkWriter" where
  "two_worker_writer =
     \<lparr>m_dbName = ''catapult'', numWorkerThreads = 2, m_connectionPool = (\<lambda>batch. accepting_server)\<rparr>"

definition constraint_violation :: "(string \<times> uint32_t) mongo_driver" where
  "constraint_violation =
     \<lparr>acquire = None,
      bulk_write = (\<lambda>db coll bulk.
        Inl (bulk_write_exception ''E11000 duplicate key'' None))\<rparr>"

definition isolation_writer :: "(string \<times> uint32_t) MongoBulkWriter" where
  "isolation_writer =
     \<lparr>m_dbName = ''catapult'', numWorkerThreads = 2,
      m_connectionPool = (\<lambda>batch. if batch = 0 then constraint_violation else accepting_server)\<rparr>"

section \<open>Properties of Aggregate\<close>

lemma Aggregate_loop_fields:
  "Aggregate_loop a rs =
     \<lparr>NumInserted = NumInserted a + sum_list (map NumInserted rs),
      NumMatched = NumMatched a + sum_list (map NumMatched rs),
      NumModified = NumModified a + sum_list (map NumModified rs),
      NumDeleted = NumDeleted a + sum_list (map NumDeleted rs),
      NumUpserted = NumUpserted a + sum_list (map NumUpserted rs)\<rparr>"
proof (induction rs arbitrary: a)
  case Nil
  show ?case by simp
next
  case (Cons r rs)
  show ?case by (simp add: Cons.IH add.assoc)
qed

lemma Aggregate_fields:
  "Aggregate rs =
     \<lparr>NumInserted = sum_list (map NumInserted rs),
      NumMatched = sum_list (map NumMatched rs),
      NumModified = sum_list (map NumModified rs),
      NumDeleted = sum_list (map NumDeleted rs),
      NumUpserted = sum_list (map NumUpserted rs)\<rparr>"
  by (simp add: Aggregate_def Aggregate_loop_fields BulkWriteResult_default_def)

lemma sum_list_map_mset_eq:
  fixes f :: "'a \<Rightarrow> 'b::comm_monoid_add"
  assumes "mset xs = mset ys"
  shows "sum_list (map f xs) = sum_list (map f ys)"
proof -
  have "mset (map f xs) = mset (map f ys)"
    using assms by (metis mset_map)
  then have "sum_mset (mset (map f xs)) = sum_mset (mset (map f ys))"
    by simp
  then show ?thesis
    by (simp only: sum_mset_sum_list)
qed

lemma Aggregate_mset:
  assumes "mset rs = mset rs'"
  shows "Aggregate rs = Aggregate rs'"
  by (simp add: Aggregate_fields sum_list_map_mset_eq [OF assms])

lemma sint_mod_uint:
  fixes w :: int32_t
  shows "sint w mod 2 ^ 32 = uint w"
proof -
  have "take_bit 32 (sint w) = uint w"
    using uint_word_of_int_eq [of "sint w", where 'a = 32] by simp
  then show ?thesis
    by (simp add: take_bit_eq_mod)
qed

lemma sint_sum_list_mod:
  fixes f :: "'a \<Rightarrow> int32_t"
  shows "sint (sum_list (map f rs)) mod 2 ^ 32 = (\<Sum>r\<leftarrow>rs. sint (f r)) mod 2 ^ 32"
proof (induction rs)
  case Nil
  show ?case by simp
next
  case (Cons r rs)
  have "sint (f r + sum_list (map f rs)) mod 2 ^ 32
      = uint (f r + sum_list (map f rs))"
    by (rule sint_mod_uint)
  also have "\<dots> = (uint (f r) + uint (sum_list (map f rs))) mod 2 ^ 32"
    by (simp add: uint_word_ariths)
  also have "\<dots> = (sint (f r) mod 2 ^ 32 + sint (sum_list (map f rs)) mod 2 ^ 32) mod 2 ^ 32"
    by (simp only: sint_mod_uint)
  also have "\<dots> = (sint (f r) mod 2 ^ 32 + (\<Sum>r\<leftarrow>rs. sint (f r)) mod 2 ^ 32) mod 2 ^ 32"
    by (simp only: Cons.IH)
  also have "\<dots> = (sint (f r) + (\<Sum>r\<leftarrow>rs. sint (f r))) mod 2 ^ 32"
    by (simp only: mod_add_eq)
  finally show ?case by simp
qed

lemma sint_sum_list_wrap:
  fixes f :: "'a \<Rightarrow> int32_t"
  shows "sint (sum_list (map f rs)) = signed_take_bit 31 (\<Sum>r\<leftarrow>rs. sint (f r))"
proof -
  have "take_bit 32 (sint (sum_list (map f rs))) = take_bit 32 (\<Sum>r\<leftarrow>rs. sint (f r))"
    using sint_sum_list_mod [of f rs] by (simp add: take_bit_eq_mod)
  then have "signed_take_bit 31 (sint (sum_list (map f rs))) = signed_take_bit 31 (\<Sum>r\<leftarrow>rs. sint (f r))"
    by (simp add: signed_take_bit_eq_iff_take_bit_eq)
  moreover have "signed_take_bit 31 (sint (sum_list (map f rs))) = sint (sum_list (map f rs))"
    using signed_take_bit_int_eq_self_iff [of 31 "sint (sum_list (map f rs))"]
      sint_ge [of "sum_list (map f rs)"] sint_lt [of "sum_list (map f rs)"] by simp
  ultimately show ?thesis by simp
qed

lemma sint_in_range:
  fixes w :: int32_t
  shows "- (2 ^ 31) \<le> sint w \<and> sint w < 2 ^ 31"
  using sint_ge [of w] sint_lt [of w] by simp

text \<open>
  Claim C3. \<open>Aggregate\<close> is the elementwise sum of the five counters of its input:
  on the empty list it is the all-zero result, the all-zero result is neutral on either
  side, aggregating a concatenation is aggregating the two aggregates, and two lists that
  are permutations of each other have the same aggregate.
\<close>

theorem Aggregate_empty_identity_permutation:
  "Aggregate [] =
     \<lparr>NumInserted = 0, NumMatched = 0, NumModified = 0, NumDeleted = 0, NumUpserted = 0\<rparr>
   \<and> Aggregate rs =
     \<lparr>NumInserted = sum_list (map NumInserted rs),
      NumMatched = sum_list (map NumMatched rs),
      NumModified = sum_list (map NumModified rs),
      NumDeleted = sum_list (map NumDeleted rs),
      NumUpserted = sum_list (map NumUpserted rs)\<rparr>
   \<and> Aggregate (Aggregate [] # rs) = Aggregate rs
   \<and> Aggregate (rs @ [Aggregate []]) = Aggregate rs
   \<and> Aggregate [Aggregate [], r] = r
   \<and> Aggregate [r, Aggregate []] = r
   \<and> Aggregate (xs @ ys) = Aggregate [Aggregate xs, Aggregate ys]
   \<and> (mset rs = mset rs' \<longrightarrow> Aggregate rs = Aggregate rs')"
proof -
  have e: "Aggregate [] =
     \<lparr>NumInserted = 0, NumMatched = 0, NumModified = 0, NumDeleted = 0, NumUpserted = 0\<rparr>"
    by (simp add: Aggregate_fields)
  have i1: "Aggregate (Aggregate [] # rs) = Aggregate rs"
    by (simp add: Aggregate_fields)
  have i2: "Aggregate (rs @ [Aggregate []]) = Aggregate rs"
    by (simp add: Aggregate_fields)
  have i3: "Aggregate [Aggregate [], r] = r" and i4: "Aggregate [r, Aggregate []] = r"
    by (simp_all add: Aggregate_fields)
  have a: "Aggregate (xs @ ys) = Aggregate [Aggregate xs, Aggregate ys]"
    by (simp add: Aggregate_fields)
  have p: "mset rs = mset rs' \<longrightarrow> Aggregate rs = Aggregate rs'"
    using Aggregate_mset by blast
  from e i1 i2 i3 i4 a p Aggregate_fields [of rs] show ?thesis
    by blast
qed

theorem Aggregate_empty_identity_permutation_witness:
  "mset [count_a, count_b] = mset [count_b, count_a]
   \<and> Aggregate [count_a, count_b] = Aggregate [count_b, count_a]"
proof -
  have "mset [count_a, count_b] = mset [count_b, count_a]
        \<longrightarrow> Aggregate [count_a, count_b] = Aggregate [count_b, count_a]"
    using Aggregate_empty_identity_permutation
            [of "[count_a, count_b]" count_a "[]" "[]" "[count_b, count_a]"]
    by blast
  moreover have "mset [count_a, count_b] = mset [count_b, count_a]"
    by simp
  ultimately show ?thesis
    by blast
qed

lemma Aggregate_field_wrap:
  assumes "field \<in> {NumInserted, NumMatched, NumModified, NumDeleted, NumUpserted}"
  shows "sint (field (Aggregate rs)) = signed_take_bit 31 (\<Sum>r\<leftarrow>rs. sint (field r))"
proof -
  have "field (Aggregate rs) = sum_list (map field rs)"
    using assms by (auto simp add: Aggregate_fields)
  then show ?thesis
    by (simp only: sint_sum_list_wrap)
qed

lemma Aggregate_field_mod:
  assumes "field \<in> {NumInserted, NumMatched, NumModified, NumDeleted, NumUpserted}"
  shows "sint (field (Aggregate rs)) mod 2 ^ 32 = (\<Sum>r\<leftarrow>rs. sint (field r)) mod 2 ^ 32"
proof -
  have "field (Aggregate rs) = sum_list (map field rs)"
    using assms by (auto simp add: Aggregate_fields)
  then show ?thesis
    by (simp only: sint_sum_list_mod)
qed

lemma Aggregate_field_differs:
  fixes field :: "BulkWriteResult \<Rightarrow> int32_t"
  assumes "\<not> (- (2 ^ 31) \<le> (\<Sum>r\<leftarrow>rs. sint (field r)) \<and> (\<Sum>r\<leftarrow>rs. sint (field r)) < 2 ^ 31)"
  shows "sint (field (Aggregate rs)) \<noteq> (\<Sum>r\<leftarrow>rs. sint (field r))"
proof
  assume "sint (field (Aggregate rs)) = (\<Sum>r\<leftarrow>rs. sint (field r))"
  then have "- (2 ^ 31) \<le> (\<Sum>r\<leftarrow>rs. sint (field r)) \<and> (\<Sum>r\<leftarrow>rs. sint (field r)) < 2 ^ 31"
    using sint_in_range [of "field (Aggregate rs)"] by simp
  with assms show False ..
qed

text \<open>
  Claim C10. The counters are signed 32-bit integers and \<open>Aggregate\<close> adds them in that
  width: each counter of the aggregate is the true sum wrapped into the signed 32-bit
  range, congruent to it modulo \<open>2 ^ 32\<close>, and differs from the true sum whenever the
  true sum lies outside that range.
\<close>

theorem Aggregate_wraps_int32:
  "\<forall>field \<in> {NumInserted, NumMatched, NumModified, NumDeleted, NumUpserted}.
     sint (field (Aggregate rs)) = signed_take_bit 31 (\<Sum>r\<leftarrow>rs. sint (field r))
     \<and> sint (field (Aggregate rs)) mod 2 ^ 32 = (\<Sum>r\<leftarrow>rs. sint (field r)) mod 2 ^ 32
     \<and> (\<not> (- (2 ^ 31) \<le> (\<Sum>r\<leftarrow>rs. sint (field r)) \<and> (\<Sum>r\<leftarrow>rs. sint (field r)) < 2 ^ 31)
          \<longrightarrow> sint (field (Aggregate rs)) \<noteq> (\<Sum>r\<leftarrow>rs. sint (field r)))"
proof (intro ballI conjI impI)
  fix field :: "BulkWriteResult \<Rightarrow> int32_t"
  assume f: "field \<in> {NumInserted, NumMatched, NumModified, NumDeleted, NumUpserted}"
  show "sint (field (Aggregate rs)) = signed_take_bit 31 (\<Sum>r\<leftarrow>rs. sint (field r))"
    by (rule Aggregate_field_wrap [OF f])
  show "sint (field (Aggregate rs)) mod 2 ^ 32 = (\<Sum>r\<leftarrow>rs. sint (field r)) mod 2 ^ 32"
    by (rule Aggregate_field_mod [OF f])
  assume "\<not> (- (2 ^ 31) \<le> (\<Sum>r\<leftarrow>rs. sint (field r)) \<and> (\<Sum>r\<leftarrow>rs. sint (field r)) < 2 ^ 31)"
  then show "sint (field (Aggregate rs)) \<noteq> (\<Sum>r\<leftarrow>rs. sint (field r))"
    by (rule Aggregate_field_differs)
qed

theorem Aggregate_wraps_int32_witness:
  "NumInserted \<in> {NumInserted, NumMatched, NumModified, NumDeleted, NumUpserted}
   \<and> \<not> (- (2 ^ 31) \<le> (\<Sum>r\<leftarrow>[count_a, count_b]. sint (NumInserted r))
         \<and> (\<Sum>r\<leftarrow>[count_a, count_b]. sint (NumInserted r)) < 2 ^ 31)
   \<and> (\<Sum>r\<leftarrow>[count_a, count_b]. sint (NumInserted r)) = 2147483648
   \<and> sint (NumInserted (Aggregate [count_a, count_b])) = - 2147483648
   \<and> sint (NumInserted (Aggregate [count_a, count_b])) \<noteq> (\<Sum>r\<leftarrow>[count_a, count_b]. sint (NumInserted r))"
proof -
  have s: "(\<Sum>r\<leftarrow>[count_a, count_b]. sint (NumInserted r)) = 2147483648"
    by (simp add: count_a_def count_b_def)
  have m: "NumInserted \<in> {NumInserted, NumMatched, NumModified, NumDeleted, NumUpserted}"
    by simp
  from Aggregate_wraps_int32 [of "[count_a, count_b]", THEN bspec, OF m] s m
  show ?thesis
    by (simp del: sum_list.Cons)
qed

section \<open>Properties of the bulk command builder\<close>

lemma partition_loop_append:
  assumes "\<And>bulk e i. appendOperation bulk e i = bulk @ g e i"
  shows "partition_loop appendOperation pBulk es index =
         pBulk @ concat (map (\<lambda>j. g (es ! j) (index + of_nat j)) [0..<length es])"
proof (induction es arbitrary: pBulk index)
  case Nil
  show ?case by simp
next
  case (Cons e es)
  have m: "map (\<lambda>j. g ((e # es) ! j) (index + of_nat j)) [0..<length (e # es)]
      = g e index # map (\<lambda>j. g (es ! j) (index + 1 + of_nat j)) [0..<length es]"
    by (simp add: upt_conv_Cons map_Suc_upt [symmetric] add.assoc del: upt_Suc)
  have "partition_loop appendOperation pBulk (e # es) index
      = partition_loop appendOperation (appendOperation pBulk e index) es (index + 1)"
    by simp
  also have "\<dots> = appendOperation pBulk e index
      @ concat (map (\<lambda>j. g (es ! j) (index + 1 + of_nat j)) [0..<length es])"
    by (rule Cons.IH)
  also have "\<dots> = pBulk
      @ concat (map (\<lambda>j. g ((e # es) ! j) (index + of_nat j)) [0..<length (e # es)])"
    by (simp only: assms m concat.simps append_assoc)
  finally show ?case .
qed

lemma buildBulk_append:
  assumes "\<And>bulk e i. appendOperation bulk e i = bulk @ g e i"
  shows "buildBulk appendOperation es start =
         concat (map (\<lambda>j. g (es ! j) (of_nat (start + j))) [0..<length es])"
  by (simp add: buildBulk_def partition_loop_append [where g = g, OF assms])

lemma bulkInsert_appendOperation_eq:
  "bulkInsert_appendOperation createDocument bulk e i = bulk @ [insert_one (createDocument e i)]"
  by (simp add: bulkInsert_appendOperation_def bulk_append_def)



text \<open>
  Claim C4. Each of the four public operations, called with no entities, returns a handle
  that is ready and holds no per-partition future; the call has no effect at all, so no
  connection is acquired from the pool, and no bulk is built.
\<close>

theorem empty_entities_ready_without_connection:
  "bulkInsert writer collectionName [] createDocument =
     \<lparr>returned = HasValue [], call_effects = [], call_bulks = []\<rparr>
   \<and> bulkInsertMany writer collectionName [] createDocuments =
     \<lparr>returned = HasValue [], call_effects = [], call_bulks = []\<rparr>
   \<and> bulkUpsert writer collectionName [] createDocument createFilter =
     \<lparr>returned = HasValue [], call_effects = [], call_bulks = []\<rparr>
   \<and> bulkDelete writer collectionName [] createFilter =
     \<lparr>returned = HasValue [], call_effects = [], call_bulks = []\<rparr>
   \<and> PoolAcquire \<notin> set (call_effects (bulkInsert writer collectionName [] createDocument))
   \<and> PoolAcquire \<notin> set (call_effects (bulkInsertMany writer collectionName [] createDocuments))
   \<and> PoolAcquire \<notin> set (call_effects (bulkUpsert writer collectionName [] createDocument createFilter))
   \<and> PoolAcquire \<notin> set (call_effects (bulkDelete writer collectionName [] createFilter))"
  by (simp add: bulkInsert_def bulkInsertMany_def bulkUpsert_def bulkDelete_def
        bulkWrite_entities_def make_ready_future_def)


section \<open>Properties of the write executor\<close>

lemma severity_le_fatal: "severity level \<le> severity fatal"
  by (cases level) simp_all

lemma bulkWrite_thrown_None:
  assumes "thrown driver db coll bulk = None"
  shows "\<exists>result. bulk_write driver db coll bulk = Inr result
           \<and> bulkWrite driver db coll bulk =
               \<lparr>events = [PoolAcquire, SetValue (BulkWriteResult_of result)],
                promise = HasValue (BulkWriteResult_of result),
                uncaught = None\<rparr>"
  using assms
  by (auto simp add: thrown_def bulkWrite_def split: option.splits sum.splits)

lemma bulkWrite_thrown_Some:
  assumes "thrown driver db coll bulk = Some e"
  shows "bulkWrite driver db coll bulk = catch_clause [PoolAcquire] e"
  using assms
  by (auto simp add: thrown_def bulkWrite_def split: option.splits sum.splits)

text \<open>
  Claim C1, as amended. An invocation of the executor in which the driver throws nothing
  sets its promise to the result; one in which the driver throws a
  \<^verbatim>\<open>bulk_write_exception\<close> sets it to a captured failure; in both nothing leaves the
  executor. An exception of any other type leaves the executor uncaught and the promise
  stays unresolved.
\<close>

theorem executor_resolves_unless_other_exception:
  "handleBulkOperation driver db coll bulk = bulkWrite driver db coll bulk
   \<and> (case thrown driver db coll bulk of
        None \<Rightarrow>
          (\<exists>result. bulk_write driver db coll bulk = Inr result
             \<and> promise (bulkWrite driver db coll bulk) = HasValue (BulkWriteResult_of result))
          \<and> uncaught (bulkWrite driver db coll bulk) = None
      | Some (bulk_write_exception message raw) \<Rightarrow>
          (\<exists>diagnostic. promise (bulkWrite driver db coll bulk) = HasException diagnostic)
          \<and> uncaught (bulkWrite driver db coll bulk) = None
      | Some (other_exception what) \<Rightarrow>
          promise (bulkWrite driver db coll bulk) = Unresolved
          \<and> uncaught (bulkWrite driver db coll bulk) = Some (other_exception what))"
proof (cases "thrown driver db coll bulk")
  case None
  from bulkWrite_thrown_None [OF None] None show ?thesis
    by (auto simp add: handleBulkOperation_def)
next
  case (Some e)
  from bulkWrite_thrown_Some [OF Some] Some show ?thesis
    by (cases e) (simp_all add: handleBulkOperation_def Let_def)
qed

text \<open>
  Claim C1 as stated fails: when acquiring a pooled connection throws an exception that is
  not a \<^verbatim>\<open>bulk_write_exception\<close>, the exception leaves the executor and the promise is
  never resolved.
\<close>

theorem executor_lets_pool_failure_escape:
  "promise (bulkWrite unavailable_pool ''catapult'' ''blocks'' [insert_one ''block'']) = Unresolved
   \<and> uncaught (bulkWrite unavailable_pool ''catapult'' ''blocks'' [insert_one ''block''])
       = Some (other_exception ''failed to acquire client'')
   \<and> promise (handleBulkOperation unavailable_pool ''catapult'' ''blocks'' [insert_one ''block''])
       = Unresolved"
  by (simp add: handleBulkOperation_def bulkWrite_def unavailable_pool_def)

text \<open>
  Claim C8. When the driver throws a \<^verbatim>\<open>bulk_write_exception\<close>, the diagnostic is built
  from the message of the error code and, when the server supplied one, the description
  of the raw server error; it is logged at level \<open>fatal\<close>, the highest severity, and
  only after that the promise of the partition is resolved with the failure that carries
  the same diagnostic. Nothing leaves the executor.
\<close>

theorem rejected_command_logged_then_surfaced:
  assumes "thrown driver db coll bulk = Some (bulk_write_exception message raw)"
  shows "let diagnostic = c_str (''message: '' @ message
                            @ (case raw of None \<Rightarrow> []
                               | Some description \<Rightarrow> '', description: '' @ description))
         in events (handleBulkOperation driver db coll bulk) =
              [PoolAcquire, Log fatal (''throwing exception: '' @ diagnostic),
               SetException diagnostic]
            \<and> promise (handleBulkOperation driver db coll bulk) = HasException diagnostic
            \<and> uncaught (handleBulkOperation driver db coll bulk) = None
            \<and> (\<forall>level. severity level \<le> severity fatal)"
proof -
  have "handleBulkOperation driver db coll bulk
      = catch_clause [PoolAcquire] (bulk_write_exception message raw)"
    using bulkWrite_thrown_Some [OF assms] by (simp add: handleBulkOperation_def)
  with severity_le_fatal show ?thesis
    by (cases raw) (simp_all add: Let_def)
qed

theorem rejected_command_logged_then_surfaced_witness:
  "thrown rejecting_server ''catapult'' ''blocks'' [insert_one ''block'']
     = Some (bulk_write_exception ''E11000 duplicate key'' (Some ''{ \"nInserted\" : 0 }''))
   \<and> events (handleBulkOperation rejecting_server ''catapult'' ''blocks'' [insert_one ''block'']) =
       [PoolAcquire,
        Log fatal ''throwing exception: message: E11000 duplicate key, description: { \"nInserted\" : 0 }'',
        SetException ''message: E11000 duplicate key, description: { \"nInserted\" : 0 }'']
   \<and> promise (handleBulkOperation rejecting_server ''catapult'' ''blocks'' [insert_one ''block'']) =
       HasException ''message: E11000 duplicate key, description: { \"nInserted\" : 0 }''"
proof -
  have t: "thrown rejecting_server ''catapult'' ''blocks'' [insert_one ''block'']
     = Some (bulk_write_exception ''E11000 duplicate key'' (Some ''{ \"nInserted\" : 0 }''))"
    by (simp add: thrown_def rejecting_server_def)
  from rejected_command_logged_then_surfaced [OF t] t show ?thesis
    by (simp add: Let_def c_str_def)
qed

section \<open>Properties of the partitioning\<close>

lemma computePartitions_from_length:
  "length (computePartitions_from base extra n k start) = n"
  by (induction n arbitrary: k start) (simp_all add: Let_def)

lemma computePartitions_from_batchIndex:
  "map batchIndex (computePartitions_from base extra n k start) = [k..<k + n]"
  by (induction n arbitrary: k start) (simp_all add: Let_def upt_rec)

lemma computePartitions_from_size:
  "map partitionSize (computePartitions_from base extra n k start) =
     map (\<lambda>j. base + (if j < extra then 1 else 0)) [k..<k + n]"
  by (induction n arbitrary: k start) (simp_all add: Let_def upt_rec)

lemma computePartitions_from_Suc:
  "computePartitions_from base extra (Suc n) k start =
     \<lparr>startIndex = start, batchIndex = k,
      partitionSize = base + (if k < extra then 1 else 0)\<rparr>
     # computePartitions_from base extra n (Suc k)
         (start + (base + (if k < extra then 1 else 0)))"
  by (simp add: Let_def)

lemma computePartitions_from_total:
  "sum_list (map partitionSize (computePartitions_from base extra n k start)) =
     n * base + (min (k + n) extra - min k extra)"
proof (induction n arbitrary: k start)
  case 0
  show ?case by simp
next
  case (Suc n)
  have "sum_list (map partitionSize (computePartitions_from base extra (Suc n) k start))
      = (base + (if k < extra then 1 else 0))
        + (n * base + (min (Suc k + n) extra - min (Suc k) extra))"
    by (simp only: computePartitions_from_Suc list.map sum_list.Cons Suc.IH
          partition.simps)
  also have "\<dots> = Suc n * base + (min (k + Suc n) extra - min k extra)"
  proof (cases "k < extra")
    case True
    then have "Suc k \<le> min (Suc k + n) extra" "min (Suc k) extra = Suc k" "min k extra = k"
      by simp_all
    then show ?thesis using True by simp
  next
    case False
    then have "min (Suc k + n) extra = extra" "min (Suc k) extra = extra"
      "min k extra = extra" "min (k + Suc n) extra = extra"
      by simp_all
    then show ?thesis using False by simp
  qed
  finally show ?case .
qed

lemma computePartitions_from_startIndex:
  "map startIndex (computePartitions_from base extra n k start) =
     map (\<lambda>j. start + sum_list (map partitionSize
                  (take j (computePartitions_from base extra n k start)))) [0..<n]"
proof (induction n arbitrary: k start)
  case 0
  show ?case by simp
next
  case (Suc n)
  have "map (\<lambda>j. start + sum_list (map partitionSize
                  (take j (computePartitions_from base extra (Suc n) k start)))) [0..<Suc n]
      = start # map (\<lambda>j. start + sum_list (map partitionSize
                  (take (Suc j) (computePartitions_from base extra (Suc n) k start)))) [0..<n]"
    by (simp add: upt_conv_Cons map_Suc_upt [symmetric] del: upt_Suc)
  then show ?case
    by (simp add: Let_def Suc.IH add.assoc del: upt_Suc)
qed

lemma computePartitions_from_range:
  "concat (map partitionRange (computePartitions_from base extra n k start)) =
     [start..<start + sum_list (map partitionSize (computePartitions_from base extra n k start))]"
proof (induction n arbitrary: k start)
  case 0
  show ?case by simp
next
  case (Suc n)
  define c where "c = base + (if k < extra then 1 else 0)"
  define t where
    "t = sum_list (map partitionSize (computePartitions_from base extra n (Suc k) (start + c)))"
  have u: "[start..<start + c] @ [start + c..<start + c + t] = [start..<start + (c + t)]"
    by (metis add.assoc le_add1 upt_add_eq_append)
  have "concat (map partitionRange (computePartitions_from base extra (Suc n) k start))
      = [start..<start + c]
        @ concat (map partitionRange (computePartitions_from base extra n (Suc k) (start + c)))"
    by (simp add: computePartitions_from_Suc partitionRange_def c_def del: computePartitions_from.simps)
  also have "\<dots> = [start..<start + c] @ [start + c..<start + c + t]"
    by (simp only: Suc.IH t_def)
  also have "\<dots> = [start..<start + (c + t)]"
    by (rule u)
  also have "c + t = sum_list (map partitionSize (computePartitions_from base extra (Suc n) k start))"
    by (simp add: computePartitions_from_Suc c_def t_def del: computePartitions_from.simps)
  finally show ?case .
qed

lemma computePartitions_unfold:
  assumes "0 < L" "1 \<le> W"
  shows "computePartitions L W =
           computePartitions_from (L div min W L) (L mod min W L) (min W L) 0 0"
  using assms by (simp add: computePartitions_def Let_def)

lemma computePartitions_total:
  assumes "0 < L" "1 \<le> W"
  shows "sum_list (map partitionSize (computePartitions L W)) = L"
proof -
  define P where "P = min W L"
  have p: "0 < P" using assms by (simp add: P_def)
  then have "L mod P < P" by (rule mod_less_divisor)
  then have m: "min P (L mod P) = L mod P" by simp
  have "sum_list (map partitionSize (computePartitions L W))
      = P * (L div P) + (min (0 + P) (L mod P) - min 0 (L mod P))"
    by (simp only: computePartitions_unfold [OF assms] computePartitions_from_total P_def)
  also have "\<dots> = P * (L div P) + L mod P"
    by (simp add: m)
  also have "\<dots> = L"
    by simp
  finally show ?thesis .
qed

lemma computePartitions_range:
  assumes "0 < L" "1 \<le> W"
  shows "concat (map partitionRange (computePartitions L W)) = [0..<L]"
proof -
  have "concat (map partitionRange (computePartitions L W)) =
        [0..<0 + sum_list (map partitionSize (computePartitions L W))]"
    by (simp only: computePartitions_unfold [OF assms] computePartitions_from_range)
  then show ?thesis
    by (simp add: computePartitions_total [OF assms])
qed

text \<open>
  Claim C2. For a sequence of length \<open>L > 0\<close> and \<open>W \<ge> 1\<close> workers there are
  \<open>P = min W L\<close> partitions; the batch indices are \<open>0, \<dots>, P - 1\<close> in order, the size of
  partition \<open>k\<close> is \<open>L div P\<close>, plus one when \<open>k < L mod P\<close>, its start index is the sum
  of the sizes of the partitions before it, and the index ranges of the partitions, one
  after the other, are exactly \<open>0, \<dots>, L - 1\<close>: they are disjoint and cover the range.
\<close>

theorem partitions_disjoint_exhaustive:
  assumes "0 < L" and "1 \<le> W"
  shows "length (computePartitions L W) = min W L
   \<and> map batchIndex (computePartitions L W) = [0..<min W L]
   \<and> map partitionSize (computePartitions L W) =
       map (\<lambda>k. L div min W L + (if k < L mod min W L then 1 else 0)) [0..<min W L]
   \<and> map startIndex (computePartitions L W) =
       map (\<lambda>k. sum_list (map partitionSize (take k (computePartitions L W)))) [0..<min W L]
   \<and> concat (map partitionRange (computePartitions L W)) = [0..<L]
   \<and> distinct (concat (map partitionRange (computePartitions L W)))
   \<and> set (concat (map partitionRange (computePartitions L W))) = {0..<L}"
proof -
  have c: "computePartitions L W =
           computePartitions_from (L div min W L) (L mod min W L) (min W L) 0 0"
    by (rule computePartitions_unfold [OF assms])
  have l: "length (computePartitions L W) = min W L"
    by (simp only: c computePartitions_from_length)
  have b: "map batchIndex (computePartitions L W) = [0..<min W L]"
    by (simp only: c computePartitions_from_batchIndex add_0)
  have s: "map partitionSize (computePartitions L W) =
       map (\<lambda>k. L div min W L + (if k < L mod min W L then 1 else 0)) [0..<min W L]"
    by (simp only: c computePartitions_from_size add_0)
  have i: "map startIndex (computePartitions L W) =
       map (\<lambda>k. sum_list (map partitionSize (take k (computePartitions L W)))) [0..<min W L]"
    by (simp only: c computePartitions_from_startIndex add_0)
  have r: "concat (map partitionRange (computePartitions L W)) = [0..<L]"
    by (rule computePartitions_range [OF assms])
  have d: "distinct (concat (map partitionRange (computePartitions L W)))"
    by (simp only: r distinct_upt)
  have e: "set (concat (map partitionRange (computePartitions L W))) = {0..<L}"
    by (simp only: r set_upt)
  from l b s i r d e show ?thesis by (intro conjI)
qed

theorem partitions_disjoint_exhaustive_witness:
  "(0::nat) < 5 \<and> (1::nat) \<le> 3
   \<and> computePartitions 5 3 =
       [\<lparr>startIndex = 0, batchIndex = 0, partitionSize = 2\<rparr>,
        \<lparr>startIndex = 2, batchIndex = 1, partitionSize = 2\<rparr>,
        \<lparr>startIndex = 4, batchIndex = 2, partitionSize = 1\<rparr>]
   \<and> concat (map partitionRange (computePartitions 5 3)) = [0..<5]"
proof -
  have a: "(0::nat) < 5" and b: "(1::nat) \<le> 3" by simp_all
  have c: "computePartitions 5 3 =
       [\<lparr>startIndex = 0, batchIndex = 0, partitionSize = 2\<rparr>,
        \<lparr>startIndex = 2, batchIndex = 1, partitionSize = 2\<rparr>,
        \<lparr>startIndex = 4, batchIndex = 2, partitionSize = 1\<rparr>]"
    by code_simp
  from partitions_disjoint_exhaustive [OF a b] c show ?thesis
    by simp
qed

section \<open>Properties of the dispatch\<close>

lemma fold_partitionCallback_bulks:
  "bulks (fold (partitionCallback writer coll ap es) ps c) =
     bulks c @ map (partitionBulk ap es) ps"
  by (induction ps arbitrary: c) (simp_all add: partitionCallback_def Let_def)

lemma fold_partitionCallback_effects:
  "effects (fold (partitionCallback writer coll ap es) ps c) =
     effects c @ concat (map (\<lambda>p. events (partitionOutcome writer coll ap es p)) ps)"
  by (induction ps arbitrary: c) (simp_all add: partitionCallback_def Let_def)

lemma fold_partitionCallback_futures:
  assumes "map batchIndex ps = [k..<k + length ps]"
    and "k + length ps \<le> length (m_futures c)"
  shows "m_futures (fold (partitionCallback writer coll ap es) ps c) =
     take k (m_futures c) @ map (\<lambda>p. promise (partitionOutcome writer coll ap es p)) ps
       @ drop (k + length ps) (m_futures c)"
  using assms
proof (induction ps arbitrary: c k)
  case Nil
  then show ?case by simp
next
  case (Cons p ps)
  define c' where "c' = partitionCallback writer coll ap es p c"
  define v where "v = promise (partitionOutcome writer coll ap es p)"
  have bk: "batchIndex p = k" and rest: "map batchIndex ps = [Suc k..<Suc k + length ps]"
    using Cons.prems(1) by (simp_all add: upt_rec)
  have k: "k < length (m_futures c)"
    using Cons.prems(2) by simp
  have f: "m_futures c' = (m_futures c)[k := v]"
    by (simp add: c'_def v_def partitionCallback_def Let_def setFutureAt_def bk)
  have len: "Suc k + length ps \<le> length (m_futures c')"
    using Cons.prems(2) by (simp add: f)
  have "m_futures (fold (partitionCallback writer coll ap es) (p # ps) c)
      = m_futures (fold (partitionCallback writer coll ap es) ps c')"
    by (simp add: c'_def)
  also have "\<dots> = take (Suc k) (m_futures c')
      @ map (\<lambda>p. promise (partitionOutcome writer coll ap es p)) ps
      @ drop (Suc k + length ps) (m_futures c')"
    by (rule Cons.IH [OF rest len])
  also have "take (Suc k) (m_futures c') = take k (m_futures c) @ [v]"
    using k by (simp add: f take_Suc_conv_app_nth)
  also have "drop (Suc k + length ps) (m_futures c') = drop (k + length (p # ps)) (m_futures c)"
    by (simp add: f)
  finally show ?case
    by (simp add: v_def)
qed

lemma bulkWrite_entities_nonempty:
  fixes writer :: "'d MongoBulkWriter"
  assumes "entities \<noteq> []" and "1 \<le> numWorkerThreads writer"
  shows "bulkWrite_entities writer coll entities ap =
     \<lparr>returned = when_all (map (\<lambda>p. promise (partitionOutcome writer coll ap entities p))
                   (computePartitions (length entities) (numWorkerThreads writer))),
      call_effects = concat (map (\<lambda>p. events (partitionOutcome writer coll ap entities p))
                   (computePartitions (length entities) (numWorkerThreads writer))),
      call_bulks = map (partitionBulk ap entities)
                   (computePartitions (length entities) (numWorkerThreads writer))\<rparr>"
proof -
  define ps where "ps = computePartitions (length entities) (numWorkerThreads writer)"
  define c :: "'d BulkWriteCall" where
    "c = \<lparr>m_futures = BulkWriteContext (min (length entities) (numWorkerThreads writer)),
          effects = [], bulks = []\<rparr>"
  have L: "0 < length entities" using assms(1) by simp
  have u: "ps = computePartitions_from
             (length entities div min (numWorkerThreads writer) (length entities))
             (length entities mod min (numWorkerThreads writer) (length entities))
             (min (numWorkerThreads writer) (length entities)) 0 0"
    unfolding ps_def by (rule computePartitions_unfold [OF L assms(2)])
  have len: "length ps = min (numWorkerThreads writer) (length entities)"
    by (simp only: u computePartitions_from_length)
  have b: "map batchIndex ps = [0..<0 + length ps]"
    by (simp only: len) (simp only: u computePartitions_from_batchIndex)
  have lc: "length (m_futures c) = length ps"
    by (simp add: c_def BulkWriteContext_def len min.commute)
  have "m_futures (fold (partitionCallback writer coll ap entities) ps c) =
     take 0 (m_futures c) @ map (\<lambda>p. promise (partitionOutcome writer coll ap entities p)) ps
       @ drop (0 + length ps) (m_futures c)"
    by (rule fold_partitionCallback_futures [OF b]) (simp add: lc)
  then have f: "m_futures (fold (partitionCallback writer coll ap entities) ps c) =
     map (\<lambda>p. promise (partitionOutcome writer coll ap entities p)) ps"
    by (simp add: lc)
  have e: "effects (fold (partitionCallback writer coll ap entities) ps c) =
     concat (map (\<lambda>p. events (partitionOutcome writer coll ap entities p)) ps)"
    by (simp add: fold_partitionCallback_effects c_def)
  have k: "bulks (fold (partitionCallback writer coll ap entities) ps c) =
     map (partitionBulk ap entities) ps"
    by (simp add: fold_partitionCallback_bulks c_def)
  have "bulkWrite_entities writer coll entities ap =
     \<lparr>returned = aggregateFuture (m_futures (fold (partitionCallback writer coll ap entities) ps c)),
      call_effects = effects (fold (partitionCallback writer coll ap entities) ps c),
      call_bulks = bulks (fold (partitionCallback writer coll ap entities) ps c)\<rparr>"
    using assms(1) by (simp add: bulkWrite_entities_def Let_def ps_def c_def)
  with f e k show ?thesis
    by (simp add: aggregateFuture_def ps_def)
qed

lemma partitionRange_in_bounds:
  assumes "0 < L" and "1 \<le> W" and "p \<in> set (computePartitions L W)"
    and "i \<in> set (partitionRange p)"
  shows "i < L"
proof -
  have "i \<in> set (concat (map partitionRange (computePartitions L W)))"
    using assms(3,4) by auto
  then show ?thesis
    by (simp only: computePartitions_range [OF assms(1,2)]) simp
qed

lemma slice_map_index:
  assumes "start + n \<le> length es"
  shows "map (\<lambda>j. G ((take n (drop start es)) ! j) (start + j)) [0..<length (take n (drop start es))]
       = map (\<lambda>i. G (es ! i) i) [start..<start + n]"
proof (rule nth_equalityI)
  show "length (map (\<lambda>j. G ((take n (drop start es)) ! j) (start + j))
                  [0..<length (take n (drop start es))])
      = length (map (\<lambda>i. G (es ! i) i) [start..<start + n])"
    using assms by simp
next
  fix j
  assume "j < length (map (\<lambda>j. G ((take n (drop start es)) ! j) (start + j))
                  [0..<length (take n (drop start es))])"
  then have j: "j < n" by simp
  then show "map (\<lambda>j. G ((take n (drop start es)) ! j) (start + j))
                  [0..<length (take n (drop start es))] ! j
      = map (\<lambda>i. G (es ! i) i) [start..<start + n] ! j"
    using assms by simp
qed

lemma partitionBulk_insert:
  assumes "\<forall>i \<in> set (partitionRange p). i < length es"
  shows "partitionBulk (bulkInsert_appendOperation createDocument) es p =
         map (\<lambda>i. insert_one (createDocument (es ! i) (of_nat i))) (partitionRange p)"
proof (cases "partitionSize p = 0")
  case True
  then show ?thesis
    by (simp add: partitionBulk_def partitionSlice_def partitionRange_def buildBulk_def)
next
  case False
  then have "startIndex p + partitionSize p - 1 \<in> set (partitionRange p)"
    by (simp add: partitionRange_def)
  with assms have "startIndex p + partitionSize p - 1 < length es"
    by blast
  with False have le: "startIndex p + partitionSize p \<le> length es"
    by simp
  have "partitionBulk (bulkInsert_appendOperation createDocument) es p =
        concat (map (\<lambda>j. [insert_one (createDocument (partitionSlice es p ! j)
                                       (of_nat (startIndex p + j)))])
                 [0..<length (partitionSlice es p)])"
    unfolding partitionBulk_def
    using buildBulk_append
        [where appendOperation = "bulkInsert_appendOperation createDocument"
           and g = "\<lambda>e i. [insert_one (createDocument e i)]"
           and es = "partitionSlice es p" and start = "startIndex p"]
    by (simp add: bulkInsert_appendOperation_eq)
  also have "\<dots> = map (\<lambda>j. insert_one (createDocument (partitionSlice es p ! j)
                                       (of_nat (startIndex p + j))))
                 [0..<length (partitionSlice es p)]"
    by (simp add: concat_map_singleton)
  also have "\<dots> = map (\<lambda>i. insert_one (createDocument (es ! i) (of_nat i)))
                 [startIndex p..<startIndex p + partitionSize p]"
    unfolding partitionSlice_def
    by (rule slice_map_index [where G = "\<lambda>e i. insert_one (createDocument e (of_nat i))", OF le])
  finally show ?thesis
    by (simp only: partitionRange_def)
qed

lemma partitionBulks_insert:
  assumes "0 < length es" and "1 \<le> W"
  shows "concat (map (partitionBulk (bulkInsert_appendOperation createDocument) es)
                   (computePartitions (length es) W)) =
         map (\<lambda>i. insert_one (createDocument (es ! i) (of_nat i))) [0..<length es]"
proof -
  have "map (partitionBulk (bulkInsert_appendOperation createDocument) es)
          (computePartitions (length es) W)
      = map (\<lambda>p. map (\<lambda>i. insert_one (createDocument (es ! i) (of_nat i))) (partitionRange p))
          (computePartitions (length es) W)"
    by (rule map_cong [OF refl], rule partitionBulk_insert)
       (blast intro: partitionRange_in_bounds [OF assms])
  also have "concat \<dots> = map (\<lambda>i. insert_one (createDocument (es ! i) (of_nat i)))
          (concat (map partitionRange (computePartitions (length es) W)))"
    by (simp add: map_concat o_def)
  finally show ?thesis
    by (simp only: computePartitions_range [OF assms])
qed

lemma sint_of_nat_small:
  assumes "n < 2 ^ 31"
  shows "sint (of_nat n :: int32_t) = int n"
proof -
  have "sint (of_nat n :: int32_t) = signed_take_bit 31 (int n)"
    using signed_of_nat [where 'a = int and 'b = 32, of n] by simp
  also have "\<dots> = int n"
    using assms by (simp add: signed_take_bit_int_eq_self)
  finally show ?thesis .
qed

lemma word_of_nat_sum_list:
  "(of_nat (sum_list ns) :: int32_t) = sum_list (map of_nat ns)"
  by (induction ns) simp_all

lemma when_all_values: "when_all (map HasValue rs) = HasValue (map HasValue rs)"
  by (simp add: when_all_def list_all_iff)

lemma bulkWrite_success:
  assumes "acquire driver = None" and "bulk_write driver db coll bulk = Inr result"
  shows "promise (handleBulkOperation driver db coll bulk) = HasValue (BulkWriteResult_of result)"
  using assms by (simp add: handleBulkOperation_def bulkWrite_def)

lemma bulkInsert_success:
  fixes writer :: "'d MongoBulkWriter"
  assumes es: "entities \<noteq> []" and w: "1 \<le> numWorkerThreads writer"
    and ok: "\<forall>k < length (call_bulks (bulkInsert writer coll entities createDocument)).
          acquire (m_connectionPool writer k) = None
          \<and> (\<exists>result. bulk_write (m_connectionPool writer k) (m_dbName writer) coll
                 (call_bulks (bulkInsert writer coll entities createDocument) ! k) = Inr result
               \<and> inserted_count result =
                   of_nat (length (call_bulks (bulkInsert writer coll entities createDocument) ! k)))"
  shows "\<exists>rs. returned (bulkInsert writer coll entities createDocument) = HasValue (map HasValue rs)
           \<and> length rs = min (numWorkerThreads writer) (length entities)
           \<and> NumInserted (Aggregate rs) = of_nat (length entities)"
proof -
  define ap where "ap = bulkInsert_appendOperation createDocument"
  define ps where "ps = computePartitions (length entities) (numWorkerThreads writer)"
  define out where "out = partitionOutcome writer coll ap entities"
  define build where "build = partitionBulk ap entities"
  define rs where
    "rs = map (\<lambda>p. case promise (out p) of HasValue r \<Rightarrow> r | _ \<Rightarrow> BulkWriteResult_default) ps"
  have L: "0 < length entities" using es by simp
  have R: "bulkInsert writer coll entities createDocument =
     \<lparr>returned = when_all (map (\<lambda>p. promise (out p)) ps),
      call_effects = concat (map (\<lambda>p. events (out p)) ps),
      call_bulks = map build ps\<rparr>"
    unfolding bulkInsert_def out_def build_def ps_def ap_def
    by (rule bulkWrite_entities_nonempty [OF es w])
  have u: "ps = computePartitions_from
             (length entities div min (numWorkerThreads writer) (length entities))
             (length entities mod min (numWorkerThreads writer) (length entities))
             (min (numWorkerThreads writer) (length entities)) 0 0"
    unfolding ps_def by (rule computePartitions_unfold [OF L w])
  have len: "length ps = min (numWorkerThreads writer) (length entities)"
    by (simp only: u computePartitions_from_length)
  have b: "map batchIndex ps = [0..<length ps]"
    by (simp only: len) (simp only: u computePartitions_from_batchIndex add_0)
  have each: "\<exists>r. promise (out p) = HasValue r \<and> NumInserted r = of_nat (length (build p))"
    if "p \<in> set ps" for p
  proof -
    from that obtain k where k: "k < length ps" and p: "ps ! k = p"
      by (auto simp add: in_set_conv_nth)
    have "batchIndex p = map batchIndex ps ! k"
      using k p by simp
    also have "\<dots> = k"
      using k by (simp only: b) simp
    finally have bk: "batchIndex p = k" .
    have bl: "call_bulks (bulkInsert writer coll entities createDocument) ! k = build p"
      using k p by (simp add: R)
    have kl: "k < length (call_bulks (bulkInsert writer coll entities createDocument))"
      using k by (simp add: R)
    from ok kl bl obtain result where a: "acquire (m_connectionPool writer k) = None"
      and r: "bulk_write (m_connectionPool writer k) (m_dbName writer) coll (build p) = Inr result"
      and c: "inserted_count result = of_nat (length (build p))"
      by metis
    have "promise (out p) = HasValue (BulkWriteResult_of result)"
      unfolding out_def partitionOutcome_def bk
      using bulkWrite_success [OF a r] by (simp add: build_def)
    moreover have "NumInserted (BulkWriteResult_of result) = of_nat (length (build p))"
      by (simp add: BulkWriteResult_of_def c)
    ultimately show ?thesis by blast
  qed
  have val: "promise (out p) =
        HasValue (case promise (out p) of HasValue r \<Rightarrow> r | _ \<Rightarrow> BulkWriteResult_default)
      \<and> NumInserted (case promise (out p) of HasValue r \<Rightarrow> r
                        | _ \<Rightarrow> BulkWriteResult_default) = of_nat (length (build p))"
    if "p \<in> set ps" for p
  proof -
    from each [OF that] obtain r where
      "promise (out p) = HasValue r" "NumInserted r = of_nat (length (build p))"
      by blast
    then show ?thesis by simp
  qed
  have m: "map (\<lambda>p. promise (out p)) ps = map HasValue rs"
    unfolding rs_def map_map o_def
    by (rule map_cong [OF refl]) (erule val [THEN conjunct1])
  have n: "map NumInserted rs = map (\<lambda>p. of_nat (length (build p))) ps"
    unfolding rs_def map_map o_def
    by (rule map_cong [OF refl]) (erule val [THEN conjunct2])
  have "returned (bulkInsert writer coll entities createDocument) = HasValue (map HasValue rs)"
    by (simp add: R m when_all_values)
  moreover have "length rs = min (numWorkerThreads writer) (length entities)"
    by (simp add: rs_def len)
  moreover have "NumInserted (Aggregate rs) = of_nat (length entities)"
  proof -
    have "NumInserted (Aggregate rs) = sum_list (map NumInserted rs)"
      by (simp add: Aggregate_fields)
    also have "\<dots> = sum_list (map of_nat (map length (map build ps)))"
      by (simp add: n o_def)
    also have "\<dots> = of_nat (length (concat (map build ps)))"
      by (simp only: word_of_nat_sum_list length_concat)
    also have "concat (map build ps) =
        map (\<lambda>i. insert_one (createDocument (entities ! i) (of_nat i))) [0..<length entities]"
      unfolding build_def ps_def ap_def by (rule partitionBulks_insert [OF L w])
    finally show ?thesis by simp
  qed
  ultimately show ?thesis by blast
qed

text \<open>
  Claim C5. With at least one worker, the bulks that the partitions of a one-to-one
  \<open>bulkInsert\<close> build hold, taken in batch order, exactly one insert per entity, in input
  order: the insert of the document that \<open>createDocument\<close> makes of the \<open>i\<close>-th entity
  and the index \<open>i\<close> (passed as a \<^verbatim>\<open>uint32_t\<close>); so there are as many inserts as entities.
  When every partition succeeds (its executor acquires a connection and the driver
  returns a result that reports as inserted the number of operations of the bulk), the
  returned handle is ready, every partition future holds a result, and the aggregated
  inserted count is the number of entities (as an \<^verbatim>\<open>int32_t\<close>; read as a signed number it
  is that number whenever it is below \<open>2 ^ 31\<close>).
\<close>

theorem bulkInsert_one_to_one:
  fixes writer :: "'d MongoBulkWriter"
  assumes "1 \<le> numWorkerThreads writer"
  shows "concat (call_bulks (bulkInsert writer coll entities createDocument)) =
           map (\<lambda>i. insert_one (createDocument (entities ! i) (of_nat i))) [0..<length entities]
   \<and> length (concat (call_bulks (bulkInsert writer coll entities createDocument))) = length entities
   \<and> ((\<forall>k < length (call_bulks (bulkInsert writer coll entities createDocument)).
          acquire (m_connectionPool writer k) = None
          \<and> (\<exists>result. bulk_write (m_connectionPool writer k) (m_dbName writer) coll
                 (call_bulks (bulkInsert writer coll entities createDocument) ! k) = Inr result
               \<and> inserted_count result =
                   of_nat (length (call_bulks (bulkInsert writer coll entities createDocument) ! k))))
        \<longrightarrow> (\<exists>rs. returned (bulkInsert writer coll entities createDocument) = HasValue (map HasValue rs)
               \<and> length rs = min (numWorkerThreads writer) (length entities)
               \<and> NumInserted (Aggregate rs) = of_nat (length entities)
               \<and> (length entities < 2 ^ 31
                    \<longrightarrow> sint (NumInserted (Aggregate rs)) = int (length entities))))"
proof (cases "entities = []")
  case True
  have "bulkInsert writer coll entities createDocument =
          \<lparr>returned = HasValue (map HasValue []), call_effects = [], call_bulks = []\<rparr>"
    by (simp add: True bulkInsert_def bulkWrite_entities_def make_ready_future_def)
  moreover have "NumInserted (Aggregate []) = of_nat (length entities)"
    by (simp add: True Aggregate_fields)
  moreover have "sint (NumInserted (Aggregate [])) = int (length entities)"
    by (simp add: True Aggregate_fields)
  ultimately show ?thesis
    using True by (intro conjI impI exI [of _ "[]"]) simp_all
next
  case False
  then have L: "0 < length entities" by simp
  have c: "concat (call_bulks (bulkInsert writer coll entities createDocument)) =
           map (\<lambda>i. insert_one (createDocument (entities ! i) (of_nat i))) [0..<length entities]"
    by (simp add: bulkInsert_def bulkWrite_entities_nonempty [OF False assms]
          partitionBulks_insert [OF L assms])
  then have l: "length (concat (call_bulks (bulkInsert writer coll entities createDocument)))
      = length entities"
    by simp
  have s: "\<exists>rs. returned (bulkInsert writer coll entities createDocument) = HasValue (map HasValue rs)
               \<and> length rs = min (numWorkerThreads writer) (length entities)
               \<and> NumInserted (Aggregate rs) = of_nat (length entities)
               \<and> (length entities < 2 ^ 31
                    \<longrightarrow> sint (NumInserted (Aggregate rs)) = int (length entities))"
    if ok: "\<forall>k < length (call_bulks (bulkInsert writer coll entities createDocument)).
          acquire (m_connectionPool writer k) = None
          \<and> (\<exists>result. bulk_write (m_connectionPool writer k) (m_dbName writer) coll
                 (call_bulks (bulkInsert writer coll entities createDocument) ! k) = Inr result
               \<and> inserted_count result =
                   of_nat (length (call_bulks (bulkInsert writer coll entities createDocument) ! k)))"
  proof -
    from bulkInsert_success [OF False assms ok] obtain rs where
      rs: "returned (bulkInsert writer coll entities createDocument) = HasValue (map HasValue rs)"
        "length rs = min (numWorkerThreads writer) (length entities)"
        "NumInserted (Aggregate rs) = of_nat (length entities)"
      by blast
    have "sint (NumInserted (Aggregate rs)) = int (length entities)"
      if "length entities < 2 ^ 31"
      by (simp only: rs(3) sint_of_nat_small [OF that])
    with rs show ?thesis by blast
  qed
  from c l s show ?thesis by blast
qed

lemma two_worker_run: "bulkInsert two_worker_writer ''blocks'' [''a'', ''b'', ''c''] Pair =
   \<lparr>returned = HasValue
       [HasValue \<lparr>NumInserted = 2, NumMatched = 0, NumModified = 0, NumDeleted = 0, NumUpserted = 0\<rparr>,
        HasValue \<lparr>NumInserted = 1, NumMatched = 0, NumModified = 0, NumDeleted = 0, NumUpserted = 0\<rparr>],
    call_effects =
       [PoolAcquire,
        SetValue \<lparr>NumInserted = 2, NumMatched = 0, NumModified = 0, NumDeleted = 0, NumUpserted = 0\<rparr>,
        PoolAcquire,
        SetValue \<lparr>NumInserted = 1, NumMatched = 0, NumModified = 0, NumDeleted = 0, NumUpserted = 0\<rparr>],
    call_bulks = [[insert_one (''a'', 0), insert_one (''b'', 1)], [insert_one (''c'', 2)]]\<rparr>"
  by code_simp

theorem bulkInsert_one_to_one_witness:
  "1 \<le> numWorkerThreads two_worker_writer
   \<and> concat (call_bulks (bulkInsert two_worker_writer ''blocks'' [''a'', ''b'', ''c''] Pair)) =
       [insert_one (''a'', 0), insert_one (''b'', 1), insert_one (''c'', 2)]
   \<and> (\<exists>rs. returned (bulkInsert two_worker_writer ''blocks'' [''a'', ''b'', ''c''] Pair)
               = HasValue (map HasValue rs)
            \<and> length rs = 2
            \<and> NumInserted (Aggregate rs) = 3
            \<and> sint (NumInserted (Aggregate rs)) = 3)"
proof -
  have w: "1 \<le> numWorkerThreads two_worker_writer"
    by (simp add: two_worker_writer_def)
  have ok: "\<forall>k < length (call_bulks (bulkInsert two_worker_writer ''blocks'' [''a'', ''b'', ''c''] Pair)).
          acquire (m_connectionPool two_worker_writer k) = None
          \<and> (\<exists>result. bulk_write (m_connectionPool two_worker_writer k)
                 (m_dbName two_worker_writer) ''blocks''
                 (call_bulks (bulkInsert two_worker_writer ''blocks'' [''a'', ''b'', ''c''] Pair) ! k)
                   = Inr result
               \<and> inserted_count result =
                   of_nat (length (call_bulks
                     (bulkInsert two_worker_writer ''blocks'' [''a'', ''b'', ''c''] Pair) ! k)))"
    by (simp add: two_worker_writer_def accepting_server_def)
  have n: "length [''a'', ''b'', ''c''] < (2::nat) ^ 31"
    by simp
  note T = bulkInsert_one_to_one [OF w, of "''blocks''" "[''a'', ''b'', ''c'']" Pair]
  have c: "concat (call_bulks (bulkInsert two_worker_writer ''blocks'' [''a'', ''b'', ''c''] Pair)) =
       map (\<lambda>i. insert_one ([''a'', ''b'', ''c''] ! i, of_nat i)) [0..<length [''a'', ''b'', ''c'']]"
    using T by (rule conjunct1)
  have c': "map (\<lambda>i. insert_one ([''a'', ''b'', ''c''] ! i, of_nat i :: uint32_t))
              [0..<length [''a'', ''b'', ''c'']]
          = [insert_one (''a'', 0), insert_one (''b'', 1), insert_one (''c'', 2)]"
    by (simp add: upt_rec)
  from T ok obtain rs where
    r: "returned (bulkInsert two_worker_writer ''blocks'' [''a'', ''b'', ''c''] Pair)
          = HasValue (map HasValue rs)"
    and l: "length rs = min (numWorkerThreads two_worker_writer) (length [''a'', ''b'', ''c''])"
    and a: "NumInserted (Aggregate rs) = of_nat (length [''a'', ''b'', ''c''])"
    and s: "length [''a'', ''b'', ''c''] < (2::nat) ^ 31
            \<longrightarrow> sint (NumInserted (Aggregate rs)) = int (length [''a'', ''b'', ''c''])"
    by blast
  from s n have s': "sint (NumInserted (Aggregate rs)) = int (length [''a'', ''b'', ''c''])"
    by (rule mp)
  have "length rs = 2"
    using l by (simp add: two_worker_writer_def)
  moreover have "NumInserted (Aggregate rs) = 3"
    using a by simp
  moreover have "sint (NumInserted (Aggregate rs)) = 3"
    using s' by simp
  ultimately have "\<exists>rs. returned (bulkInsert two_worker_writer ''blocks'' [''a'', ''b'', ''c''] Pair)
               = HasValue (map HasValue rs)
            \<and> length rs = 2
            \<and> NumInserted (Aggregate rs) = 3
            \<and> sint (NumInserted (Aggregate rs)) = 3"
    using r by blast
  with w c [unfolded c'] show ?thesis
    by (intro conjI)
qed

section \<open>Properties of the composed handle\<close>

lemma catch_clause_acquires:
  "length (filter (\<lambda>e. e = PoolAcquire) (events (catch_clause [PoolAcquire] e))) = 1"
proof (cases e)
  case (bulk_write_exception message raw)
  then show ?thesis by (cases raw) (simp_all add: Let_def)
next
  case (other_exception what)
  then show ?thesis by simp
qed

lemma bulkWrite_acquires_once:
  "length (filter (\<lambda>e. e = PoolAcquire) (events (bulkWrite driver db coll bulk))) = 1"
proof (cases "thrown driver db coll bulk")
  case None
  from bulkWrite_thrown_None [OF None] show ?thesis by auto
next
  case (Some e)
  show ?thesis
    by (simp only: bulkWrite_thrown_Some [OF Some] catch_clause_acquires)
qed

lemma partitionOutcome_acquires_once:
  "length (filter (\<lambda>e. e = PoolAcquire) (events (partitionOutcome writer coll ap es p))) = 1"
  by (simp only: partitionOutcome_def handleBulkOperation_def bulkWrite_acquires_once)

lemma partitionOutcomes_acquire:
  "length (filter (\<lambda>e. e = PoolAcquire)
             (concat (map (\<lambda>p. events (partitionOutcome writer coll ap es p)) ps))) = length ps"
proof (induction ps)
  case Nil
  show ?case by simp
next
  case (Cons p ps)
  have "length (filter (\<lambda>e. e = PoolAcquire)
             (concat (map (\<lambda>p. events (partitionOutcome writer coll ap es p)) (p # ps))))
      = length (filter (\<lambda>e. e = PoolAcquire) (events (partitionOutcome writer coll ap es p)))
        + length (filter (\<lambda>e. e = PoolAcquire)
             (concat (map (\<lambda>p. events (partitionOutcome writer coll ap es p)) ps)))"
    by simp
  also have "\<dots> = 1 + length ps"
    by (simp only: partitionOutcome_acquires_once Cons.IH)
  finally show ?case by simp
qed

lemma partitionOutcome_other_driver:
  assumes "batchIndex p \<noteq> j"
  shows "partitionOutcome (writer\<lparr>m_connectionPool := (m_connectionPool writer)(j := d)\<rparr>)
           coll ap es p = partitionOutcome writer coll ap es p"
  using assms by (simp add: partitionOutcome_def)

lemma when_all_resolved:
  "resolved (when_all futures) = list_all resolved futures"
  by (simp add: when_all_def)

lemma computePartitions_batchIndex_nth:
  assumes "0 < L" and "1 \<le> W" and "k < length (computePartitions L W)"
  shows "batchIndex (computePartitions L W ! k) = k"
proof -
  have "map batchIndex (computePartitions L W) = [0..<0 + min W L]"
    by (simp only: computePartitions_unfold [OF assms(1,2)] computePartitions_from_batchIndex)
  moreover have "length (computePartitions L W) = min W L"
    by (simp only: computePartitions_unfold [OF assms(1,2)] computePartitions_from_length)
  ultimately have "map batchIndex (computePartitions L W) ! k = k"
    using assms(3) by simp
  then show ?thesis
    using assms(3) by simp
qed

lemma isolation_run:
  "bulkInsert isolation_writer ''blocks'' [''a'', ''b'', ''c'', ''d''] Pair =
   \<lparr>returned = HasValue
       [HasException ''message: E11000 duplicate key'',
        HasValue \<lparr>NumInserted = 2, NumMatched = 0, NumModified = 0, NumDeleted = 0, NumUpserted = 0\<rparr>],
    call_effects =
       [PoolAcquire,
        Log fatal ''throwing exception: message: E11000 duplicate key'',
        SetException ''message: E11000 duplicate key'',
        PoolAcquire,
        SetValue \<lparr>NumInserted = 2, NumMatched = 0, NumModified = 0, NumDeleted = 0, NumUpserted = 0\<rparr>],
    call_bulks = [[insert_one (''a'', 0), insert_one (''b'', 1)],
                  [insert_one (''c'', 2), insert_one (''d'', 3)]]\<rparr>"
  by code_simp

text \<open>
  Claim C7. For a call with entities and at least one worker, the composed handle is
  ready exactly when the future of every partition has resolved, with a value or with an
  exception, and then it holds exactly these futures; otherwise it is unresolved. There
  is one future per partition, and every partition acquires a connection exactly once,
  whatever happens in the others: nothing is cancelled and nothing is retried. The
  outcome of a partition depends on the driver of its own batch only: replacing the driver
  of batch \<open>j\<close>, so that it fails or succeeds, leaves the outcome of every other partition
  as it was. A ready handle does not mean success: with four entities and two workers
  and a rejection in batch 0, the handle is ready and holds the failure of partition 0
  beside the two inserts of partition 1. The tasks are run one after the other, in batch
  order; the claim is stated over the states the futures end in.
\<close>

theorem handle_ready_when_all_partitions_resolved:
  fixes writer :: "'d MongoBulkWriter"
  assumes "entities \<noteq> []" and "1 \<le> numWorkerThreads writer"
  shows "(resolved (returned (bulkWrite_entities writer coll entities ap))
          \<longleftrightarrow> list_all resolved
                (map (\<lambda>p. promise (partitionOutcome writer coll ap entities p))
                   (computePartitions (length entities) (numWorkerThreads writer))))
   \<and> (resolved (returned (bulkWrite_entities writer coll entities ap))
        \<longrightarrow> returned (bulkWrite_entities writer coll entities ap) =
              HasValue (map (\<lambda>p. promise (partitionOutcome writer coll ap entities p))
                          (computePartitions (length entities) (numWorkerThreads writer))))
   \<and> (\<not> resolved (returned (bulkWrite_entities writer coll entities ap))
        \<longrightarrow> returned (bulkWrite_entities writer coll entities ap) = Unresolved)
   \<and> length (computePartitions (length entities) (numWorkerThreads writer)) =
       min (numWorkerThreads writer) (length entities)
   \<and> length (filter (\<lambda>e. e = PoolAcquire)
               (call_effects (bulkWrite_entities writer coll entities ap))) =
       length (computePartitions (length entities) (numWorkerThreads writer))
   \<and> (\<forall>k < length (computePartitions (length entities) (numWorkerThreads writer)).
         k \<noteq> j \<longrightarrow>
           partitionOutcome (writer\<lparr>m_connectionPool := (m_connectionPool writer)(j := d)\<rparr>)
             coll ap entities
             (computePartitions (length entities) (numWorkerThreads writer) ! k) =
           partitionOutcome writer coll ap entities
             (computePartitions (length entities) (numWorkerThreads writer) ! k))
   \<and> returned (bulkInsert isolation_writer ''blocks'' [''a'', ''b'', ''c'', ''d''] Pair) =
       HasValue
         [HasException ''message: E11000 duplicate key'',
          HasValue \<lparr>NumInserted = 2, NumMatched = 0, NumModified = 0, NumDeleted = 0,
                     NumUpserted = 0\<rparr>]"
proof -
  define ps where "ps = computePartitions (length entities) (numWorkerThreads writer)"
  define futures where
    "futures = map (\<lambda>p. promise (partitionOutcome writer coll ap entities p)) ps"
  have L: "0 < length entities" using assms(1) by simp
  have R: "bulkWrite_entities writer coll entities ap =
     \<lparr>returned = when_all futures,
      call_effects = concat (map (\<lambda>p. events (partitionOutcome writer coll ap entities p)) ps),
      call_bulks = map (partitionBulk ap entities) ps\<rparr>"
    unfolding futures_def ps_def by (rule bulkWrite_entities_nonempty [OF assms])
  have r: "returned (bulkWrite_entities writer coll entities ap) = when_all futures"
    by (simp add: R)
  have a: "resolved (returned (bulkWrite_entities writer coll entities ap))
          \<longleftrightarrow> list_all resolved futures"
    by (simp only: r when_all_resolved)
  have b: "resolved (returned (bulkWrite_entities writer coll entities ap))
        \<longrightarrow> returned (bulkWrite_entities writer coll entities ap) = HasValue futures"
    by (simp add: r when_all_def)
  have c: "\<not> resolved (returned (bulkWrite_entities writer coll entities ap))
        \<longrightarrow> returned (bulkWrite_entities writer coll entities ap) = Unresolved"
    by (simp add: r when_all_def)
  have l: "length ps = min (numWorkerThreads writer) (length entities)"
    unfolding ps_def
    by (simp only: computePartitions_unfold [OF L assms(2)] computePartitions_from_length)
  have q: "length (filter (\<lambda>e. e = PoolAcquire)
               (call_effects (bulkWrite_entities writer coll entities ap))) = length ps"
    by (simp add: R partitionOutcomes_acquire)
  have i: "\<forall>k < length ps. k \<noteq> j \<longrightarrow>
           partitionOutcome (writer\<lparr>m_connectionPool := (m_connectionPool writer)(j := d)\<rparr>)
             coll ap entities (ps ! k) =
           partitionOutcome writer coll ap entities (ps ! k)"
  proof (intro allI impI)
    fix k
    assume k: "k < length ps" and n: "k \<noteq> j"
    have "batchIndex (ps ! k) = k"
      using k unfolding ps_def by (rule computePartitions_batchIndex_nth [OF L assms(2)])
    with n have "batchIndex (ps ! k) \<noteq> j" by simp
    then show "partitionOutcome (writer\<lparr>m_connectionPool := (m_connectionPool writer)(j := d)\<rparr>)
             coll ap entities (ps ! k) =
           partitionOutcome writer coll ap entities (ps ! k)"
      by (rule partitionOutcome_other_driver)
  qed
  have s: "returned (bulkInsert isolation_writer ''blocks'' [''a'', ''b'', ''c'', ''d''] Pair) =
       HasValue
         [HasException ''message: E11000 duplicate key'',
          HasValue \<lparr>NumInserted = 2, NumMatched = 0, NumModified = 0, NumDeleted = 0,
                     NumUpserted = 0\<rparr>]"
    by (simp only: isolation_run BulkWriteReturn.simps)
  from a b c l q i s show ?thesis
    unfolding futures_def ps_def by (intro conjI)
qed

theorem handle_ready_when_all_partitions_resolved_witness:
  "[''a'', ''b'', ''c'', ''d''] \<noteq> []
   \<and> 1 \<le> numWorkerThreads isolation_writer
   \<and> length (computePartitions (length [''a'', ''b'', ''c'', ''d''])
               (numWorkerThreads isolation_writer)) = 2
   \<and> length (filter (\<lambda>e. e = PoolAcquire)
               (call_effects (bulkWrite_entities isolation_writer ''blocks''
                  [''a'', ''b'', ''c'', ''d''] (bulkInsert_appendOperation Pair)))) = 2
   \<and> resolved (returned (bulkWrite_entities isolation_writer ''blocks''
                  [''a'', ''b'', ''c'', ''d''] (bulkInsert_appendOperation Pair)))
   \<and> returned (bulkWrite_entities isolation_writer ''blocks''
                  [''a'', ''b'', ''c'', ''d''] (bulkInsert_appendOperation Pair)) =
       HasValue
         [HasException ''message: E11000 duplicate key'',
          HasValue \<lparr>NumInserted = 2, NumMatched = 0, NumModified = 0, NumDeleted = 0,
                     NumUpserted = 0\<rparr>]"
proof -
  have e: "[''a'', ''b'', ''c'', ''d''] \<noteq> []" by simp
  have w: "1 \<le> numWorkerThreads isolation_writer"
    by (simp add: isolation_writer_def)
  note T = handle_ready_when_all_partitions_resolved
             [OF e w, of "''blocks''" "bulkInsert_appendOperation Pair" 0 accepting_server]
  from T have l: "length (computePartitions (length [''a'', ''b'', ''c'', ''d''])
               (numWorkerThreads isolation_writer)) =
       min (numWorkerThreads isolation_writer) (length [''a'', ''b'', ''c'', ''d''])"
    by blast
  then have l2: "length (computePartitions (length [''a'', ''b'', ''c'', ''d''])
               (numWorkerThreads isolation_writer)) = 2"
    by (simp add: isolation_writer_def)
  from T have "length (filter (\<lambda>e. e = PoolAcquire)
               (call_effects (bulkWrite_entities isolation_writer ''blocks''
                  [''a'', ''b'', ''c'', ''d''] (bulkInsert_appendOperation Pair)))) =
       length (computePartitions (length [''a'', ''b'', ''c'', ''d''])
               (numWorkerThreads isolation_writer))"
    by blast
  then have q: "length (filter (\<lambda>e. e = PoolAcquire)
               (call_effects (bulkWrite_entities isolation_writer ''blocks''
                  [''a'', ''b'', ''c'', ''d''] (bulkInsert_appendOperation Pair)))) = 2"
    by (simp only: l2)
  from T have s: "returned (bulkWrite_entities isolation_writer ''blocks''
                  [''a'', ''b'', ''c'', ''d''] (bulkInsert_appendOperation Pair)) =
       HasValue
         [HasException ''message: E11000 duplicate key'',
          HasValue \<lparr>NumInserted = 2, NumMatched = 0, NumModified = 0, NumDeleted = 0,
                     NumUpserted = 0\<rparr>]"
    unfolding bulkInsert_def by blast
  then have r: "resolved (returned (bulkWrite_entities isolation_writer ''blocks''
                  [''a'', ''b'', ''c'', ''d''] (bulkInsert_appendOperation Pair)))"
    by simp
  from e w l2 q r s show ?thesis
    by (intro conjI)
qed

end
